theory Spec2Isabelle
  imports Complex_Main "HOL-Library.Word"
begin

section \<open>Raster buffers\<close>

text \<open>
  The renderer of \<^verbatim>\<open>Image_IFS.py\<close> works on RGBA rasters of the imaging library.
  A pixel is four 8-bit channels; a raster carries its own width and height (a raster
  of height 0 still has a width) and its rows from top to bottom. The memory a raster
  takes, which bounds its size in the library, is not part of the model.
\<close>

type_synonym u8 = "8 word"

type_synonym pixel = "u8 \<times> u8 \<times> u8 \<times> u8"

definition alpha :: "pixel \<Rightarrow> u8" where
  "alpha p = snd (snd (snd p))"

record raster =
  width :: nat
  height :: nat
  pixels :: "pixel list list"

definition wf_raster :: "raster \<Rightarrow> bool" where
  "wf_raster im \<longleftrightarrow>
     length (pixels im) = height im \<and> (\<forall>r \<in> set (pixels im). length r = width im)"

definition getpixel :: "raster \<Rightarrow> nat \<Rightarrow> nat \<Rightarrow> pixel" where
  "getpixel im x y = pixels im ! y ! x"

definition mk_raster :: "nat \<Rightarrow> nat \<Rightarrow> (nat \<Rightarrow> nat \<Rightarrow> pixel) \<Rightarrow> raster" where
  "mk_raster w h f =
     \<lparr>width = w, height = h, pixels = map (\<lambda>y. map (\<lambda>x. f x y) [0..<w]) [0..<h]\<rparr>"

definition pixel_set :: "raster \<Rightarrow> pixel set" where
  "pixel_set im = (\<Union>r \<in> set (pixels im). set r)"

text \<open>
  The exceptions the calls raise. A \<^verbatim>\<open>RecursionError\<close> comes out of a nest of calls that
  have each assigned \<^verbatim>\<open>self.image\<close>; it carries the buffer they leave behind.
\<close>

datatype error = ValueError | ZeroDivisionError | OverflowError | RecursionError raster

text \<open>The library takes sizes and positions as C ints, of 32 bits.\<close>

definition c_int :: "int \<Rightarrow> bool" where
  "c_int i \<longleftrightarrow> - (2 ^ 31) \<le> i \<and> i < 2 ^ 31"

subsection \<open>The imaging library's primitives\<close>

text \<open>
  \<^verbatim>\<open>Image.new('RGBA', size, color)\<close>: a raster of one colour. The library refuses a
  negative width or height with \<^verbatim>\<open>ValueError\<close>; an empty raster is allowed.
\<close>

definition Image_new :: "int \<times> int \<Rightarrow> pixel \<Rightarrow> error + raster" where
  "Image_new size_tuple color =
     (case size_tuple of (w, h) \<Rightarrow>
        if w < 0 \<or> h < 0 then Inl ValueError
        else Inr (mk_raster (nat w) (nat h) (\<lambda>x y. color)))"

text \<open>\<^verbatim>\<open>im.transpose(Image.FLIP_TOP_BOTTOM)\<close>: the rows in reverse order.\<close>

definition transpose_flip_top_bottom :: "raster \<Rightarrow> raster" where
  "transpose_flip_top_bottom im = im\<lparr>pixels := rev (pixels im)\<rparr>"

text \<open>
  \<^verbatim>\<open>im.resize((w, h))\<close>. A raster that already has the requested size is returned as a
  copy; otherwise the size goes to the library's C code, where a number that is no C int
  raises \<^verbatim>\<open>OverflowError\<close>, a target below one pixel is refused with \<^verbatim>\<open>ValueError\<close>, and
  the library's resampling filter computes the new raster. The filter is the library's
  (nearest neighbour or bicubic by default, depending on its version) and so is a
  parameter \<open>rs\<close> of every definition that resamples.
\<close>

type_synonym resampler = "raster \<Rightarrow> nat \<Rightarrow> nat \<Rightarrow> error + raster"

definition resize :: "resampler \<Rightarrow> raster \<Rightarrow> int \<times> int \<Rightarrow> error + raster" where
  "resize rs im size_tuple =
     (case size_tuple of (w, h) \<Rightarrow>
        if int (width im) = w \<and> int (height im) = h then Inr im
        else if \<not> (c_int w \<and> c_int h) then Inl OverflowError
        else if w < 1 \<or> h < 1 then Inl ValueError
        else rs im (nat w) (nat h))"

text \<open>
  Modelled from the spec: nearest-neighbour resampling (spec 4.1, "nearest/standard
  resampling"), as one resampler to run the model with. The resampling code is the
  imaging library's and is not in the repository. Each target pixel takes the source
  pixel under its centre; an empty source has no pixel to take.
\<close>

definition nearest :: resampler where
  "nearest im w h =
     (if width im = 0 \<or> height im = 0 then Inl ValueError
      else Inr (mk_raster w h (\<lambda>x y.
             getpixel im ((2 * x + 1) * width im div (2 * w))
                         ((2 * y + 1) * height im div (2 * h)))))"

text \<open>
  \<^verbatim>\<open>dst.paste(src, (ox, oy))\<close> without a mask copies \<open>src\<close>, all four channels, into
  \<open>dst\<close> with its top left corner at \<open>(ox, oy)\<close>; the part of \<open>src\<close> that falls outside
  \<open>dst\<close> is clipped without an error. The library gets the box
  \<open>(ox, oy, ox + width, oy + height)\<close> of four C ints, and a number that is none raises
  \<^verbatim>\<open>OverflowError\<close>. The source mutates \<open>dst\<close>; the model returns it.
\<close>

definition paste :: "raster \<Rightarrow> raster \<Rightarrow> int \<times> int \<Rightarrow> error + raster" where
  "paste dst src box =
     (case box of (ox, oy) \<Rightarrow>
        if \<not> (c_int ox \<and> c_int oy \<and>
                c_int (ox + int (width src)) \<and> c_int (oy + int (height src)))
        then Inl OverflowError
        else Inr (mk_raster (width dst) (height dst) (\<lambda>x y.
               let sx = int x - ox; sy = int y - oy
               in if 0 \<le> sx \<and> sx < int (width src) \<and> 0 \<le> sy \<and> sy < int (height src)
                  then getpixel src (nat sx) (nat sy)
                  else getpixel dst x y)))"

text \<open>
  The library's 8-bit blend: \<^verbatim>\<open>DIV255(a) = (tmp = a + 128, ((tmp >> 8) + tmp) >> 8)\<close>
  and \<^verbatim>\<open>BLEND8(mask, in1, in2) = DIV255(in1 * (255 - mask) + in2 * mask)\<close>, computed in
  C ints and stored into a byte.
\<close>

definition DIV255 :: "nat \<Rightarrow> nat" where
  "DIV255 a = (let tmp = a + 128 in (tmp div 256 + tmp) div 256)"

definition BLEND8 :: "u8 \<Rightarrow> u8 \<Rightarrow> u8 \<Rightarrow> u8" where
  "BLEND8 msk in1 in2 =
     of_nat (DIV255 (unat in1 * (255 - unat msk) + unat in2 * unat msk))"

definition blend_pixel :: "u8 \<Rightarrow> pixel \<Rightarrow> pixel \<Rightarrow> pixel" where
  "blend_pixel a out inp =
     (case out of (r1, g1, b1, a1) \<Rightarrow> case inp of (r2, g2, b2, a2) \<Rightarrow>
        (BLEND8 a r1 r2, BLEND8 a g1 g2, BLEND8 a b1 b2, BLEND8 a a1 a2))"

text \<open>
  \<^verbatim>\<open>dst.paste(src, mask=mask)\<close> with an RGBA mask, at the default position \<open>(0, 0)\<close>:
  every channel of \<open>dst\<close>, alpha included, is blended with \<open>src\<close> by the mask's alpha
  (255 copies \<open>src\<close>, 0 keeps \<open>dst\<close>, values between mix the two). A mask of another
  size than \<open>src\<close> is refused with \<^verbatim>\<open>ValueError\<close>; clipping is as in \<open>paste\<close>.
\<close>

definition paste_mask :: "raster \<Rightarrow> raster \<Rightarrow> raster \<Rightarrow> error + raster" where
  "paste_mask dst src msk =
     (if width msk \<noteq> width src \<or> height msk \<noteq> height src then Inl ValueError
      else Inr (mk_raster (width dst) (height dst) (\<lambda>x y.
             if x < width src \<and> y < height src
             then blend_pixel (alpha (getpixel msk x y)) (getpixel dst x y) (getpixel src x y)
             else getpixel dst x y)))"

subsection \<open>Floats\<close>

text \<open>
  A Python float is an IEEE double, and a finite double is a real number: the model takes
  the floats as reals and rounds where the float arithmetic of \<^verbatim>\<open>iterate\<close> rounds. \<open>fl x\<close>
  is the double nearest to \<open>x\<close>, ties to the even mantissa: \<open>binade x\<close> is the exponent
  \<open>e\<close> with \<open>2^e \<le> |x| < 2^(e+1)\<close>, not below the least normal exponent \<open>-1022\<close>, and
  the mantissa has 53 bits, so that neighbouring doubles are \<open>2^(e-52)\<close> apart. A result
  of \<open>2^1024\<close> or more stands for an infinity.
\<close>

function halvings :: "real \<Rightarrow> nat" where
  "halvings y = (if y < 2 then 0 else Suc (halvings (y / 2)))"
  by pat_completeness auto
termination
proof (relation "measure (\<lambda>y. nat \<lfloor>y\<rfloor>)")
  fix y :: real
  assume "\<not> y < 2"
  then have "y / 2 \<le> y - 1" by simp
  then have "\<lfloor>y / 2\<rfloor> \<le> \<lfloor>y - 1\<rfloor>" by (rule floor_mono)
  moreover from \<open>\<not> y < 2\<close> have "1 \<le> \<lfloor>y - 1\<rfloor>" by simp
  ultimately show "(y / 2, y) \<in> measure (\<lambda>y. nat \<lfloor>y\<rfloor>)" by simp
qed simp

declare halvings.simps [simp del]

definition binade :: "real \<Rightarrow> int" where
  "binade x = int (halvings (\<bar>x\<bar> * 2 ^ 1022)) - 1022"

definition ulp :: "real \<Rightarrow> real" where
  "ulp x = 2 powi (binade x - 52)"

definition round_half_even :: "real \<Rightarrow> int" where
  "round_half_even x =
     (let f = \<lfloor>x\<rfloor>; d = x - of_int f
      in if d < 1 / 2 then f else if 1 / 2 < d then f + 1 else if even f then f else f + 1)"

definition fl :: "real \<Rightarrow> real" where
  "fl x = of_int (round_half_even (x / ulp x)) * ulp x"

text \<open>Python's \<^verbatim>\<open>int(x)\<close> on a finite float: the fractional part is dropped (towards zero).\<close>

definition py_int :: "real \<Rightarrow> int" where
  "py_int x = (if x < 0 then \<lceil>x\<rceil> else \<lfloor>x\<rfloor>)"

text \<open>
  \<^verbatim>\<open>x * n\<close> for a float \<open>x\<close> and an int \<open>n\<close>: the int is converted to the nearest double
  and the product of the two doubles is rounded.
\<close>

definition float_times_int :: "real \<Rightarrow> int \<Rightarrow> real" where
  "float_times_int x n = fl (x * fl (of_int n))"

text \<open>
  \<^verbatim>\<open>int(x * n)\<close>: an int too large for a double raises \<^verbatim>\<open>OverflowError\<close> in the conversion,
  and so does \<^verbatim>\<open>int\<close> on a product that has overflowed to an infinity.
\<close>

definition int_of_product :: "real \<Rightarrow> int \<Rightarrow> error + int" where
  "int_of_product x n =
     (if 2 ^ 1024 \<le> \<bar>fl (of_int n)\<bar> then Inl OverflowError
      else let p = float_times_int x n
           in if 2 ^ 1024 \<le> \<bar>p\<bar> then Inl OverflowError else Inr (py_int p))"

section \<open>The renderer\<close>

text \<open>
  A contraction is \<^verbatim>\<open>(scale, (x_offset, y_offset))\<close>, three floats (an int among them
  counts as the float of its value). The values \<^verbatim>\<open>nan\<close> and \<^verbatim>\<open>inf\<close> are not among them.
\<close>

type_synonym contraction = "real \<times> (real \<times> real)"

text \<open>\<^verbatim>\<open>_default_seed\<close>: a white, opaque square.\<close>

definition default_seed :: "int \<Rightarrow> error + raster" where
  "default_seed image_size = Image_new (image_size, image_size) (255, 255, 255, 255)"

text \<open>
  The loop body for one contraction, statement by statement: the side of the scaled copy,
  the resize, the position, the transparent layer with the copy pasted on it, and the
  layer composited onto the canvas through its own alpha.
\<close>

definition apply_contraction ::
  "resampler \<Rightarrow> raster \<Rightarrow> int \<Rightarrow> bool \<Rightarrow> raster \<Rightarrow> contraction \<Rightarrow> error + raster" where
  "apply_contraction rs start_image image_size center_origin new_image contraction =
     (case int_of_product (fst contraction) image_size of
        Inl e \<Rightarrow> Inl e
      | Inr scale \<Rightarrow>
     (case resize rs start_image (scale, scale) of
        Inl e \<Rightarrow> Inl e
      | Inr current_image \<Rightarrow>
     (let x_offset = (if center_origin then scale else 0);
          y_offset = (if center_origin then scale else 0)
      in case int_of_product (fst (snd contraction)) image_size of
        Inl e \<Rightarrow> Inl e
      | Inr dx \<Rightarrow>
     (let x_offset = x_offset + dx
      in case int_of_product (snd (snd contraction)) image_size of
        Inl e \<Rightarrow> Inl e
      | Inr dy \<Rightarrow>
     (let y_offset = y_offset + dy
      in case Image_new (image_size, image_size) (0, 0, 0, 0) of
        Inl e \<Rightarrow> Inl e
      | Inr transparency \<Rightarrow>
     (case paste transparency current_image (x_offset, y_offset) of
        Inl e \<Rightarrow> Inl e
      | Inr transparency' \<Rightarrow> paste_mask new_image transparency' transparency'))))))"

text \<open>The loop over \<^verbatim>\<open>self.functions\<close>, in list order; an exception ends it.\<close>

fun apply_functions ::
  "resampler \<Rightarrow> raster \<Rightarrow> int \<Rightarrow> bool \<Rightarrow> raster \<Rightarrow> contraction list \<Rightarrow> error + raster" where
  "apply_functions rs start_image image_size center_origin new_image [] = Inr new_image"
| "apply_functions rs start_image image_size center_origin new_image (c # cs) =
     (case apply_contraction rs start_image image_size center_origin new_image c of
        Inl e \<Rightarrow> Inl e
      | Inr new_image' \<Rightarrow> apply_functions rs start_image image_size center_origin new_image' cs)"

text \<open>The attributes of \<^verbatim>\<open>Image_IFS\<close>; \<open>image_out\<close> is \<^verbatim>\<open>self.image\<close>, \<open>ifs_functions\<close> is
  \<^verbatim>\<open>self.functions\<close>.\<close>

record renderer =
  seed_image :: raster
  image_out :: raster
  image_size :: int
  center_origin :: bool
  ifs_functions :: "contraction list"

text \<open>\<^verbatim>\<open>Image_IFS.__init__\<close>; \<open>None\<close> is the absent seed.\<close>

definition init :: "resampler \<Rightarrow> raster option \<Rightarrow> int \<Rightarrow> bool \<Rightarrow> error + renderer" where
  "init rs seed size' center_origin' =
     (case (case seed of
              None \<Rightarrow> default_seed size'
            | Some s \<Rightarrow> resize rs s (size', size')) of
        Inl e \<Rightarrow> Inl e
      | Inr seed' \<Rightarrow>
          Inr \<lparr>seed_image = seed', image_out = seed', image_size = size',
               center_origin = center_origin', ifs_functions = []\<rparr>)"

text \<open>\<^verbatim>\<open>Image_IFS.add_function\<close>: the body is one \<^verbatim>\<open>append\<close>; nothing is checked.\<close>

definition add_function :: "renderer \<Rightarrow> real \<Rightarrow> real \<times> real \<Rightarrow> error + renderer" where
  "add_function st scale translation =
     Inr (st\<lparr>ifs_functions := ifs_functions st @ [(scale, translation)]\<rparr>)"

text \<open>
  The branch \<^verbatim>\<open>n_iterations > 0\<close> up to the assignment \<^verbatim>\<open>self.image = new_image\<close>.
\<close>

definition ifs_step :: "resampler \<Rightarrow> bool \<Rightarrow> renderer \<Rightarrow> error + renderer" where
  "ifs_step rs first_call st =
     (let start_image = (if first_call then transpose_flip_top_bottom (image_out st)
                         else image_out st)
      in case Image_new (image_size st, image_size st) (0, 0, 0, 0) of
           Inl e \<Rightarrow> Inl e
         | Inr new_image \<Rightarrow>
             (case apply_functions rs start_image (image_size st) (center_origin st)
                     new_image (ifs_functions st) of
                Inl e \<Rightarrow> Inl e
              | Inr new_image' \<Rightarrow> Inr (st\<lparr>image_out := new_image'\<rparr>)))"

text \<open>The branch \<^verbatim>\<open>n_iterations == 0 and first_call == False\<close>.\<close>

definition finalize :: "renderer \<Rightarrow> error + renderer" where
  "finalize st =
     (case Image_new (image_size st, image_size st) (0, 0, 0, 255) of
        Inl e \<Rightarrow> Inl e
      | Inr background \<Rightarrow>
          (case paste_mask background (image_out st) (image_out st) of
             Inl e \<Rightarrow> Inl e
           | Inr background' \<Rightarrow>
               Inr (st\<lparr>image_out := transpose_flip_top_bottom background'\<rparr>)))"

text \<open>
  \<^verbatim>\<open>Image_IFS.iterate(n_iterations, first_call)\<close>. The method calls itself: a call with
  \<open>n > 0\<close> nests \<open>n\<close> further calls, the last of them the finalization, and the
  interpreter allows only so many nested calls (\<^verbatim>\<open>sys.getrecursionlimit()\<close>, 1000 by default, counts every frame on the
  stack). \<open>depth\<close> is the number of further nested calls of the method that are still
  possible, each with the room its library calls take, when this call runs; the call
  that would exceed it raises \<^verbatim>\<open>RecursionError\<close>, after the assignment to \<^verbatim>\<open>self.image\<close>.
  A top-level call has fewer than \<open>recursion_limit\<close> of them.
\<close>

definition recursion_limit :: nat where
  "recursion_limit = 1000"

function iterate ::
  "resampler \<Rightarrow> nat \<Rightarrow> int \<Rightarrow> bool \<Rightarrow> renderer \<Rightarrow> error + renderer" where
  "iterate rs depth n_iterations first_call st =
     (if n_iterations > 0 then
        (case ifs_step rs first_call st of
           Inl e \<Rightarrow> Inl e
         | Inr st' \<Rightarrow>
             if depth = 0 then Inl (RecursionError (image_out st'))
             else iterate rs (depth - 1) (n_iterations - 1) False st')
      else if n_iterations = 0 \<and> first_call = False then finalize st
      else Inr st)"
  by pat_completeness auto
termination
  by (relation "measure (\<lambda>(rs, d, n, fc, st). nat n)") auto

declare iterate.simps [simp del]

text \<open>A run of \<^verbatim>\<open>add_function\<close> calls, one per contraction, in list order.\<close>

fun add_functions :: "renderer \<Rightarrow> contraction list \<Rightarrow> error + renderer" where
  "add_functions st [] = Inr st"
| "add_functions st (c # cs) =
     (case add_function st (fst c) (snd c) of
        Inl e \<Rightarrow> Inl e
      | Inr st' \<Rightarrow> add_functions st' cs)"

section \<open>The generators\<close>





section \<open>Properties of buffers and resamplers\<close>

text \<open>A buffer of exactly \<open>n\<close> by \<open>n\<close> pixels.\<close>

definition square_of :: "int \<Rightarrow> raster \<Rightarrow> bool" where
  "square_of n im \<longleftrightarrow> int (width im) = n \<and> int (height im) = n \<and> wf_raster im"

text \<open>What every resampling filter does: the raster it returns has the requested size.\<close>

definition sized_resampler :: "resampler \<Rightarrow> bool" where
  "sized_resampler rs \<longleftrightarrow>
     (\<forall>im w h im'. rs im w h = Inr im' \<longrightarrow> width im' = w \<and> height im' = h \<and> wf_raster im')"

text \<open>Every pixel is fully transparent or fully opaque.\<close>

definition binary_alpha :: "raster \<Rightarrow> bool" where
  "binary_alpha im \<longleftrightarrow> wf_raster im \<and> (\<forall>p \<in> pixel_set im. alpha p = 0 \<or> alpha p = 255)"

text \<open>
  A resampler that makes no new alpha values, as one that copies source pixels does.
\<close>

definition keeps_binary_alpha :: "resampler \<Rightarrow> bool" where
  "keeps_binary_alpha rs \<longleftrightarrow>
     (\<forall>im w h im'. binary_alpha im \<longrightarrow> rs im w h = Inr im' \<longrightarrow> binary_alpha im')"

subsection \<open>Inputs of the examples\<close>

definition white1 :: raster where
  "white1 = \<lparr>width = 1, height = 1, pixels = [[(255, 255, 255, 255)]]\<rparr>"

definition unit_renderer :: renderer where
  "unit_renderer = \<lparr>seed_image = white1, image_out = white1, image_size = 1,
                    center_origin = False, ifs_functions = []\<rparr>"

text \<open>
  Two contractions of scale 1 that shift the copy right by one and by two pixels of a
  4 by 4 buffer; a raster of four columns, each of one colour; the renderer the default
  seed of size 4 and these contractions give, with a buffer \<open>im\<close>.
\<close>

definition shift_functions :: "contraction list" where
  "shift_functions = [(1, (1 / 4, 0)), (1, (1 / 2, 0))]"

definition columns4 :: "pixel \<Rightarrow> pixel \<Rightarrow> pixel \<Rightarrow> pixel \<Rightarrow> raster" where
  "columns4 a b c d = \<lparr>width = 4, height = 4,
     pixels = [[a, b, c, d], [a, b, c, d], [a, b, c, d], [a, b, c, d]]\<rparr>"

definition shift_renderer :: "raster \<Rightarrow> renderer" where
  "shift_renderer im = \<lparr>seed_image = columns4 (255, 255, 255, 255) (255, 255, 255, 255)
                                              (255, 255, 255, 255) (255, 255, 255, 255),
     image_out = im, image_size = 4, center_origin = False, ifs_functions = shift_functions\<rparr>"

text \<open>
  A renderer of size 2 on the white seed, with one contraction whose products with the
  size are \<open>1.75\<close>, and a buffer \<open>im\<close>.
\<close>

definition white2 :: raster where
  "white2 = \<lparr>width = 2, height = 2,
     pixels = [[(255, 255, 255, 255), (255, 255, 255, 255)],
               [(255, 255, 255, 255), (255, 255, 255, 255)]]\<rparr>"

definition seven_eighths_renderer :: "raster \<Rightarrow> renderer" where
  "seven_eighths_renderer im = \<lparr>seed_image = white2, image_out = im, image_size = 2,
     center_origin = False, ifs_functions = [(7 / 8, (7 / 8, 0))]\<rparr>"

text \<open>A seed of one half-transparent white pixel, and its renderer with one contraction.\<close>

definition half_white1 :: raster where
  "half_white1 = \<lparr>width = 1, height = 1, pixels = [[(255, 255, 255, 128)]]\<rparr>"

definition half_renderer :: "raster \<Rightarrow> renderer" where
  "half_renderer im = \<lparr>seed_image = half_white1, image_out = im, image_size = 1,
     center_origin = False, ifs_functions = [(1, (0, 0))]\<rparr>"

section \<open>Rounding to a double\<close>

lemma halvings_le: "y < 2 ^ Suc k \<Longrightarrow> halvings y \<le> k"
proof (induction k arbitrary: y)
  case 0
  then show ?case by (subst halvings.simps) simp
next
  case (Suc k)
  from Suc.prems have "y / 2 < 2 ^ Suc k" by simp
  from Suc.IH [OF this] show ?case by (subst halvings.simps) simp
qed

lemma halvings_eq: "2 ^ k \<le> y \<Longrightarrow> y < 2 ^ Suc k \<Longrightarrow> halvings y = k"
proof (induction k arbitrary: y)
  case 0
  then show ?case by (subst halvings.simps) simp
next
  case (Suc k)
  have "(1 :: real) \<le> 2 ^ k" by simp
  moreover from Suc.prems(1) have "2 * 2 ^ k \<le> y" by simp
  ultimately have "\<not> y < 2" by linarith
  moreover from Suc.prems have "2 ^ k \<le> y / 2" "y / 2 < 2 ^ Suc k" by simp_all
  ultimately show ?case using Suc.IH [of "y / 2"] by (subst halvings.simps) simp
qed

lemma round_half_even_of_int [simp]: "round_half_even (of_int z) = z"
  by (simp add: round_half_even_def)

lemma fl_dyadic:
  assumes x: "x = of_int m * 2 powi k" and m: "\<bar>m\<bar> < 2 ^ 53" and k: "- 1074 \<le> k"
  shows "fl x = x"
proof -
  let ?j = "nat (k + 1074)"
  have "\<bar>x\<bar> = of_int \<bar>m\<bar> * 2 powi k" by (simp add: x abs_mult)
  also have "\<dots> < 2 ^ 53 * 2 powi k"
  proof -
    from m have "(of_int \<bar>m\<bar> :: real) < of_int (2 ^ 53)" by (simp only: of_int_less_iff)
    then show ?thesis by simp
  qed
  finally have "\<bar>x\<bar> * 2 ^ 1022 < 2 ^ 53 * 2 powi k * 2 ^ 1022" by simp
  also have "\<dots> = 2 powi (53 + k + 1022)"
    by (simp add: power_int_add)
  also have "\<dots> = 2 ^ Suc ?j"
  proof -
    from k have "nat (53 + k + 1022) = Suc ?j" by simp
    with k show ?thesis by (simp add: power_int_def)
  qed
  finally have "halvings (\<bar>x\<bar> * 2 ^ 1022) \<le> ?j" by (rule halvings_le)
  then have e: "binade x - 52 \<le> k" using k by (simp add: binade_def)
  define u where "u = binade x - 52"
  define n where "n = nat (k - u)"
  from e have kn: "k = u + int n" by (simp add: n_def u_def)
  have "(2 :: real) powi k = 2 ^ n * 2 powi u"
    unfolding kn by (simp add: power_int_add)
  then have xu: "x = of_int (m * 2 ^ n) * 2 powi u" by (simp add: x)
  then have "x / 2 powi u = of_int (m * 2 ^ n)" by simp
  then have "fl x = of_int (m * 2 ^ n) * 2 powi u"
    unfolding fl_def ulp_def u_def [symmetric] by (simp only: round_half_even_of_int)
  with xu show ?thesis by simp
qed

lemma fl_of_int: "\<bar>m\<bar> < 2 ^ 53 \<Longrightarrow> fl (of_int m) = of_int m"
  by (rule fl_dyadic [where m = m and k = 0]) simp_all

lemma fl_0 [simp]: "fl 0 = 0" using fl_of_int [of 0] by simp
lemma fl_1 [simp]: "fl 1 = 1" using fl_of_int [of 1] by simp
lemma fl_numeral: "(numeral w :: int) < 2 ^ 53 \<Longrightarrow> fl (numeral w) = numeral w"
  using fl_of_int [of "numeral w"] by simp

lemma fl_neg_numeral: "(numeral w :: int) < 2 ^ 53 \<Longrightarrow> fl (- numeral w) = - numeral w"
  using fl_of_int [of "- numeral w"] by simp

lemma abs_py_int_le: "\<bar>of_int (py_int y)\<bar> \<le> \<bar>y\<bar>"
proof (cases "y < 0")
  case True
  then have "\<lceil>y\<rceil> \<le> 0" by (simp add: ceiling_le_zero)
  moreover have "y \<le> of_int \<lceil>y\<rceil>" by (rule le_of_int_ceiling)
  ultimately show ?thesis using True by (simp add: py_int_def)
next
  case False
  then have "0 \<le> \<lfloor>y\<rfloor>" by simp
  moreover have "of_int \<lfloor>y\<rfloor> \<le> y" by (rule of_int_floor_le)
  ultimately show ?thesis using False by (simp add: py_int_def)
qed

lemma py_int_near: "\<bar>y - of_int (py_int y)\<bar> < 1"
  unfolding py_int_def by (simp split: if_splits) linarith

section \<open>Rasters: size and pixels\<close>

lemma width_mk_raster [simp]: "width (mk_raster w h f) = w"
  by (simp add: mk_raster_def)

lemma height_mk_raster [simp]: "height (mk_raster w h f) = h"
  by (simp add: mk_raster_def)

lemma wf_mk_raster [simp]: "wf_raster (mk_raster w h f)"
  by (auto simp: mk_raster_def wf_raster_def)

lemma getpixel_mk_raster [simp]: "x < w \<Longrightarrow> y < h \<Longrightarrow> getpixel (mk_raster w h f) x y = f x y"
  by (simp add: mk_raster_def getpixel_def)

lemma pixel_set_mk_raster: "pixel_set (mk_raster w h f) = {f x y | x y. x < w \<and> y < h}"
  by (fastforce simp: mk_raster_def pixel_set_def)

lemma mk_raster_cong:
  "(\<And>x y. x < w \<Longrightarrow> y < h \<Longrightarrow> f x y = g x y) \<Longrightarrow> mk_raster w h f = mk_raster w h g"
  by (simp add: mk_raster_def)

lemma getpixel_in_pixel_set:
  "wf_raster im \<Longrightarrow> x < width im \<Longrightarrow> y < height im \<Longrightarrow> getpixel im x y \<in> pixel_set im"
  by (auto simp: wf_raster_def getpixel_def pixel_set_def intro!: bexI [where x = "pixels im ! y"])

lemma width_flip [simp]: "width (transpose_flip_top_bottom im) = width im"
  by (simp add: transpose_flip_top_bottom_def)

lemma height_flip [simp]: "height (transpose_flip_top_bottom im) = height im"
  by (simp add: transpose_flip_top_bottom_def)

lemma wf_flip [simp]: "wf_raster (transpose_flip_top_bottom im) = wf_raster im"
  by (simp add: transpose_flip_top_bottom_def wf_raster_def)

lemma pixel_set_flip [simp]: "pixel_set (transpose_flip_top_bottom im) = pixel_set im"
  by (simp add: transpose_flip_top_bottom_def pixel_set_def)

lemma Image_new_Inr:
  "Image_new (w, h) c = Inr im \<longleftrightarrow> 0 \<le> w \<and> 0 \<le> h \<and> im = mk_raster (nat w) (nat h) (\<lambda>x y. c)"
  by (auto simp: Image_new_def)

lemma paste_size:
  "paste dst src box = Inr r \<Longrightarrow> width r = width dst \<and> height r = height dst \<and> wf_raster r"
  by (auto simp: paste_def split: prod.splits if_splits)

lemma paste_mask_size:
  "paste_mask dst src m = Inr r \<Longrightarrow> width r = width dst \<and> height r = height dst \<and> wf_raster r"
  by (auto simp: paste_mask_def split: if_splits)

lemma DIV255_exact: "x \<le> 255 \<Longrightarrow> DIV255 (x * 255) = x"
  unfolding DIV255_def Let_def by arith

lemma unat_u8_le: "unat (a :: u8) \<le> 255"
  using unsigned_less [of a, where ?'a = nat] by simp

lemma BLEND8_keep: "BLEND8 0 a b = a"
  by (simp add: BLEND8_def DIV255_exact unat_u8_le)

lemma BLEND8_copy: "BLEND8 255 a b = b"
  by (simp add: BLEND8_def DIV255_exact unat_u8_le)

lemma sized_nearest: "sized_resampler nearest"
  by (auto simp: sized_resampler_def nearest_def split: if_splits)

lemma resize_square:
  "sized_resampler rs \<Longrightarrow> wf_raster im \<Longrightarrow> resize rs im (n, n) = Inr im' \<Longrightarrow> square_of n im'"
  by (auto simp: resize_def sized_resampler_def square_of_def split: if_splits)

section \<open>The buffer keeps its size\<close>

lemma apply_contraction_size:
  "apply_contraction rs start n co canvas c = Inr r \<Longrightarrow>
   width r = width canvas \<and> height r = height canvas \<and> wf_raster r"
  unfolding apply_contraction_def Let_def
  by (auto split: sum.splits dest: paste_mask_size)

lemma apply_functions_size:
  "apply_functions rs start n co canvas cs = Inr r \<Longrightarrow> wf_raster canvas \<Longrightarrow>
   width r = width canvas \<and> height r = height canvas \<and> wf_raster r"
proof (induction cs arbitrary: canvas)
  case Nil
  then show ?case by simp
next
  case (Cons c cs)
  from Cons.prems(1) obtain mid where
    m: "apply_contraction rs start n co canvas c = Inr mid" and
    r: "apply_functions rs start n co mid cs = Inr r"
    by (auto split: sum.splits)
  from apply_contraction_size [OF m] Cons.IH [OF r] show ?case by simp
qed

lemma ifs_step_square:
  "ifs_step rs fc st = Inr st' \<Longrightarrow>
   \<exists>im. st' = st\<lparr>image_out := im\<rparr> \<and> square_of (image_size st) im"
  unfolding ifs_step_def Let_def
  by (auto simp: square_of_def Image_new_Inr split: sum.splits dest!: apply_functions_size)

lemma finalize_square:
  "finalize st = Inr st' \<Longrightarrow>
   \<exists>im. st' = st\<lparr>image_out := im\<rparr> \<and> square_of (image_size st) im"
  unfolding finalize_def
  by (auto simp: square_of_def Image_new_Inr split: sum.splits dest!: paste_mask_size)

lemma iterate_pos:
  "0 < n \<Longrightarrow> iterate rs d n fc st =
     (case ifs_step rs fc st of
        Inl e \<Rightarrow> Inl e
      | Inr st' \<Rightarrow>
          if d = 0 then Inl (RecursionError (image_out st'))
          else iterate rs (d - 1) (n - 1) False st')"
  by (subst iterate.simps) simp

lemma iterate_last: "iterate rs d 0 False st = finalize st"
  by (subst iterate.simps) simp

lemma iterate_noop: "n < 0 \<or> (n = 0 \<and> fc) \<Longrightarrow> iterate rs d n fc st = Inr st"
  by (subst iterate.simps) auto

lemma iterate_square:
  "iterate rs d n fc st = Inr st' \<Longrightarrow> square_of (image_size st) (image_out st) \<Longrightarrow>
   \<exists>im. st' = st\<lparr>image_out := im\<rparr> \<and> square_of (image_size st) im"
proof (induction rs d n fc st rule: iterate.induct)
  case (1 rs d n fc st)
  show ?case
  proof (cases "n > 0")
    case True
    with "1.prems" obtain st1 where s1: "ifs_step rs fc st = Inr st1"
      and d: "d \<noteq> 0" and it: "iterate rs (d - 1) (n - 1) False st1 = Inr st'"
      by (auto simp: iterate_pos split: sum.splits if_splits)
    from ifs_step_square [OF s1] obtain im1 where eq: "st1 = st\<lparr>image_out := im1\<rparr>"
      and sq: "square_of (image_size st) im1" by auto
    from "1.IH" [OF True s1 d it] sq eq
    obtain im where "st' = st1\<lparr>image_out := im\<rparr>" "square_of (image_size st) im"
      by auto
    with eq show ?thesis by auto
  next
    case False
    show ?thesis
    proof (cases "n = 0 \<and> \<not> fc")
      case True
      with "1.prems" have "finalize st = Inr st'" by (simp add: iterate_last)
      then show ?thesis by (rule finalize_square)
    next
      case F2: False
      with False have "iterate rs d n fc st = Inr st" by (intro iterate_noop) auto
      with "1.prems" have "st' = st" by simp
      with "1.prems"(2) show ?thesis by (intro exI [where x = "image_out st"]) simp
    qed
  qed
qed

lemma init_Inr:
  "init rs seed n co = Inr st \<longleftrightarrow>
   (\<exists>im. (case seed of None \<Rightarrow> default_seed n | Some s \<Rightarrow> resize rs s (n, n)) = Inr im \<and>
         st = \<lparr>seed_image = im, image_out = im, image_size = n, center_origin = co,
               ifs_functions = []\<rparr>)"
  by (auto simp: init_def split: sum.splits)

lemma default_seed_square: "default_seed n = Inr im \<Longrightarrow> square_of n im"
  by (auto simp: default_seed_def Image_new_Inr square_of_def)

lemmas eval_defs =
  init_def default_seed_def add_function_def ifs_step_def finalize_def Image_new_def
  mk_raster_def apply_contraction_def int_of_product_def float_times_int_def py_int_def
  fl_numeral c_int_def resize_def nearest_def
  paste_def paste_mask_def getpixel_def blend_pixel_def BLEND8_def DIV255_def alpha_def
  transpose_flip_top_bottom_def white1_def unit_renderer_def wf_raster_def square_of_def
  iterate_pos iterate_last iterate_noop recursion_limit_def Let_def

text \<open>
  C8. The current buffer is a square of \<open>image_size\<close> by \<open>image_size\<close> pixels: the
  constructor makes it so, from the default seed or from a given seed that it resizes
  (the resampler returns the size it is asked for), and every \<open>iterate\<close> call that returns,
  whether it steps, finalizes or does nothing, leaves \<open>image_size\<close> alone and the buffer
  a square of that size. (A call that raises leaves a square as well: the constructor's,
  or the canvas of a step.)
\<close>

theorem buffer_is_square:
  assumes "sized_resampler rs"
    and "case seed of None \<Rightarrow> True | Some s \<Rightarrow> wf_raster s"
  shows "(init rs seed n co = Inr st0 \<longrightarrow> square_of (image_size st0) (image_out st0)) \<and>
         (square_of (image_size st) (image_out st) \<and> iterate rs d k fc st = Inr st' \<longrightarrow>
            image_size st' = image_size st \<and> square_of (image_size st') (image_out st'))"
proof (intro conjI impI)
  assume "init rs seed n co = Inr st0"
  then obtain im where
    im: "(case seed of None \<Rightarrow> default_seed n | Some s \<Rightarrow> resize rs s (n, n)) = Inr im"
    and st0: "image_out st0 = im" "image_size st0 = n"
    by (auto simp: init_Inr)
  from im assms have "square_of n im"
    by (auto split: option.splits dest: default_seed_square resize_square)
  with st0 show "square_of (image_size st0) (image_out st0)" by simp
next
  assume a: "square_of (image_size st) (image_out st) \<and> iterate rs d k fc st = Inr st'"
  then obtain im where "st' = st\<lparr>image_out := im\<rparr>" "square_of (image_size st) im"
    using iterate_square by blast
  then show "image_size st' = image_size st" "square_of (image_size st') (image_out st')"
    by simp_all
qed

theorem buffer_is_square_witness:
  "sized_resampler nearest \<and> wf_raster white1 \<and>
   init nearest (Some white1) 1 False = Inr unit_renderer \<and>
   square_of (image_size unit_renderer) (image_out unit_renderer) \<and>
   iterate nearest (recursion_limit - 1) 1 True (unit_renderer\<lparr>ifs_functions := [(1, (0, 0))]\<rparr>)
     = Inr (unit_renderer\<lparr>ifs_functions := [(1, (0, 0))]\<rparr>) \<and>
   square_of 1 (image_out (unit_renderer\<lparr>ifs_functions := [(1, (0, 0))]\<rparr>))"
proof -
  let ?st = "unit_renderer\<lparr>ifs_functions := [(1, (0, 0))]\<rparr>"
  have w: "case Some white1 of None \<Rightarrow> True | Some s \<Rightarrow> wf_raster s"
    by (simp add: white1_def wf_raster_def)
  have i: "init nearest (Some white1) 1 False = Inr unit_renderer"
    by (simp add: eval_defs)
  have r: "iterate nearest (recursion_limit - 1) 1 True ?st = Inr ?st"
    by (simp add: eval_defs)
  have s: "square_of (image_size ?st) (image_out ?st)"
    by (simp add: eval_defs)
  from buffer_is_square [OF sized_nearest w, of 1 False unit_renderer ?st "recursion_limit - 1"
      1 True ?st] i r s w
  show ?thesis using sized_nearest by (simp add: unit_renderer_def)
qed

section \<open>Calls that change nothing\<close>

text \<open>
  C10. A call \<open>iterate n\<close> with a negative \<open>n\<close> takes neither branch: it raises no error and
  returns the renderer as it was, with the same buffer, \<open>image_size\<close>, \<open>center_origin\<close>
  and contraction list. A top-level call has \<open>first_call = True\<close>; the flag plays no role.
\<close>

theorem iterate_negative_noop: "n < 0 \<Longrightarrow> iterate rs d n fc st = Inr st"
  by (subst iterate.simps) simp

theorem iterate_negative_noop_witness:
  "(-1 :: int) < 0 \<and>
   iterate nearest (recursion_limit - 1) (-1) True unit_renderer = Inr unit_renderer"
  using iterate_negative_noop [of "-1" nearest "recursion_limit - 1" True unit_renderer] by simp

text \<open>
  C3. \<open>iterate 0\<close> as the first call on a constructed renderer returns the renderer
  unchanged: the buffer is still the seed the constructor stored (the default seed, or the
  given seed resized), so neither the flip nor the finalization has been applied.
\<close>

theorem iterate_zero_first_call:
  assumes "init rs seed n co = Inr st"
  shows "iterate rs d 0 True st = Inr st \<and> image_out st = seed_image st \<and>
         (case seed of None \<Rightarrow> default_seed n | Some s \<Rightarrow> resize rs s (n, n))
           = Inr (image_out st)"
proof -
  have "iterate rs d 0 True st = Inr st"
    by (subst iterate.simps) simp
  with assms show ?thesis by (auto simp: init_Inr)
qed

theorem iterate_zero_first_call_witness:
  "init nearest None 1 False = Inr unit_renderer \<and>
   iterate nearest (recursion_limit - 1) 0 True unit_renderer = Inr unit_renderer \<and>
   image_out unit_renderer = seed_image unit_renderer \<and>
   default_seed 1 = Inr (image_out unit_renderer)"
proof -
  have i: "init nearest None 1 False = Inr unit_renderer"
    by (simp add: eval_defs)
  from iterate_zero_first_call [OF i] i show ?thesis by simp
qed

section \<open>Adding contractions\<close>

text \<open>
  C6, as stated, fails: \<open>add_function\<close> with scale 0 raises nothing and stores the pair;
  the scale is refused only later, by the resize inside \<open>iterate\<close>.
\<close>

theorem add_function_scale_zero_counterexample:
  "(0 :: real) \<le> 0 \<and>
   add_function unit_renderer 0 (0, 0) = Inr (unit_renderer\<lparr>ifs_functions := [(0, (0, 0))]\<rparr>) \<and>
   iterate nearest (recursion_limit - 1) 1 True (unit_renderer\<lparr>ifs_functions := [(0, (0, 0))]\<rparr>)
     = Inl ValueError"
  by (simp add: eval_defs)

text \<open>
  C6, amended. \<open>add_function\<close> raises no error for any scale, positive or not: it returns
  at once, with the pair \<open>(scale, translation)\<close> appended at the end of the contraction
  list and every other field as it was.
\<close>

theorem add_function_appends:
  "\<exists>st'. add_function st scale translation = Inr st' \<and>
         ifs_functions st' = ifs_functions st @ [(scale, translation)] \<and>
         image_out st' = image_out st \<and> seed_image st' = seed_image st \<and>
         image_size st' = image_size st \<and> center_origin st' = center_origin st"
  by (simp add: add_function_def)


section \<open>Scale and offsets of a copy\<close>

lemma int_of_product_Inr:
  "int_of_product x n = Inr k \<Longrightarrow> k = py_int (fl (x * fl (of_int n)))"
  by (auto simp: int_of_product_def float_times_int_def Let_def split: if_splits)

lemma apply_functions_append:
  "apply_functions rs start n co canvas (xs @ ys) =
     (case apply_functions rs start n co canvas xs of
        Inl e \<Rightarrow> Inl e
      | Inr mid \<Rightarrow> apply_functions rs start n co mid ys)"
  by (induction xs arbitrary: canvas) (simp_all split: sum.splits)

lemma apply_contraction_Inr:
  assumes "apply_contraction rs start n co canvas (s, (tx, ty)) = Inr r"
  shows "\<exists>k dx dy cur layer.
           int_of_product s n = Inr k \<and> int_of_product tx n = Inr dx \<and>
           int_of_product ty n = Inr dy \<and>
           resize rs start (k, k) = Inr cur \<and>
           paste (mk_raster (nat n) (nat n) (\<lambda>x y. (0, 0, 0, 0))) cur
             ((if co then k else 0) + dx, (if co then k else 0) + dy) = Inr layer \<and>
           paste_mask canvas layer layer = Inr r"
  using assms unfolding apply_contraction_def Let_def
  by (auto simp: Image_new_Inr split: sum.splits)

text \<open>
  The rounding shows at the double next to \<open>1/3\<close>: three times it is less than 1, and
  the float product is 1.
\<close>

lemma int_of_product_third:
  "int_of_product (6004799503160661 / 18014398509481984) 3 = Inr 1 \<and>
   \<lfloor>6004799503160661 / 18014398509481984 * 3 :: real\<rfloor> = 0"
proof -
  let ?y = "6004799503160661 / 18014398509481984 * 3 :: real"
  have "halvings (\<bar>?y\<bar> * 2 ^ 1022) = 1021"
    by (rule halvings_eq) simp_all
  then have "binade ?y = - 1" by (simp add: binade_def)
  then have u: "ulp ?y = 1 / 2 ^ 53" by (simp add: ulp_def power_int_minus inverse_eq_divide)
  have "fl ?y = 1" unfolding fl_def u by (simp add: round_half_even_def)
  then show ?thesis
    by (simp add: int_of_product_def float_times_int_def py_int_def fl_numeral)
qed

lemma mk_raster_2:
  "mk_raster 2 2 f = \<lparr>width = 2, height = 2, pixels = [[f 0 0, f 1 0], [f 0 1, f 1 1]]\<rparr>"
proof -
  have "[0..<2] = [0, 1]" by (simp add: upt_rec)
  then show ?thesis by (simp add: mk_raster_def)
qed

lemma mk_raster_1:
  "mk_raster (Suc 0) (Suc 0) f = \<lparr>width = 1, height = 1, pixels = [[f 0 0]]\<rparr>"
  by (simp add: mk_raster_def)

lemma fl_7_4: "fl (7 / 4) = 7 / 4"
  by (rule fl_dyadic [where m = 7 and k = "-2"]) (simp_all add: power_int_minus)

lemma int_of_product_7_8: "int_of_product (7 / 8) 2 = Inr 1"
  by (simp add: int_of_product_def float_times_int_def py_int_def fl_numeral fl_7_4)

lemma seven_eighths_step:
  "ifs_step nearest True (seven_eighths_renderer white2)
     = Inr (seven_eighths_renderer \<lparr>width = 2, height = 2,
              pixels = [[(0, 0, 0, 0), (255, 255, 255, 255)], [(0, 0, 0, 0), (0, 0, 0, 0)]]\<rparr>)"
  by (simp add: seven_eighths_renderer_def white2_def ifs_step_def Image_new_def
        apply_contraction_def int_of_product_def float_times_int_def
        py_int_def fl_numeral fl_7_4 resize_def c_int_def nearest_def paste_def paste_mask_def
        getpixel_def blend_pixel_def alpha_def BLEND8_keep BLEND8_copy
        transpose_flip_top_bottom_def mk_raster_2 mk_raster_1 Let_def)

text \<open>
  C1, as stated, fails: for \<open>image_size = 2\<close> and the factor \<open>7/8\<close> the product is the
  double \<open>1.75\<close>, which rounds to 2, and the code computes 1. With scale and x translation
  \<open>7/8\<close> the step on the white seed pastes a copy of one pixel at column 1; rounded, a copy
  of two pixels would lie at column 2, outside the canvas.
\<close>

theorem step_round_counterexample:
  "int_of_product (7 / 8) 2 = Inr 1 \<and> round (7 / 8 * 2 :: real) = (2 :: int) \<and>
   ifs_step nearest True (seven_eighths_renderer white2)
     = Inr (seven_eighths_renderer \<lparr>width = 2, height = 2,
              pixels = [[(0, 0, 0, 0), (255, 255, 255, 255)], [(0, 0, 0, 0), (0, 0, 0, 0)]]\<rparr>)"
  by (simp add: int_of_product_7_8 seven_eighths_step round_def)

text \<open>
  C1, amended. On a renderer with \<open>image_size > 0\<close>, a step of \<open>iterate\<close> that returns has,
  for the contraction \<open>(s, (tx, ty))\<close> at each place \<open>i\<close> of the list, resized the start
  buffer to \<open>k = int(s * image_size)\<close> pixels per side and pasted the copy on a
  transparent layer at the position that starts at \<open>(k, k)\<close> or \<open>(0, 0)\<close> and has
  \<open>int(tx * image_size)\<close> and \<open>int(ty * image_size)\<close> added; \<open>int\<close> drops the fractional
  part of the double product, so that \<open>k\<close> is less than 1 away from the product and never
  beyond it. The layer is composited on the canvas the contractions before \<open>i\<close> have
  made, the contractions after \<open>i\<close> follow, and a call \<open>iterate m\<close> with \<open>m > 0\<close> goes
  on from the buffer of this step.
\<close>

theorem ifs_step_truncates:
  assumes "0 < image_size st" and "ifs_step rs fc st = Inr st'"
    and "i < length (ifs_functions st)" and "ifs_functions st ! i = (s, (tx, ty))"
  shows "let n = image_size st; co = center_origin st; fs = ifs_functions st;
             start = (if fc then transpose_flip_top_bottom (image_out st) else image_out st);
             transparent = mk_raster (nat n) (nat n) (\<lambda>x y. (0, 0, 0, 0));
             k = py_int (fl (s * fl (of_int n)));
             dx = py_int (fl (tx * fl (of_int n)));
             dy = py_int (fl (ty * fl (of_int n)))
         in \<bar>of_int k\<bar> \<le> \<bar>fl (s * fl (of_int n))\<bar> \<and>
            \<bar>fl (s * fl (of_int n)) - of_int k\<bar> < 1 \<and>
            (\<exists>cur layer before after.
               apply_functions rs start n co transparent (take i fs) = Inr before \<and>
               resize rs start (k, k) = Inr cur \<and>
               paste transparent cur
                 ((if co then k else 0) + dx, (if co then k else 0) + dy) = Inr layer \<and>
               paste_mask before layer layer = Inr after \<and>
               apply_functions rs start n co after (drop (Suc i) fs) = Inr (image_out st')) \<and>
            (\<forall>d m. 0 < m \<longrightarrow>
               iterate rs (Suc d) m fc st = iterate rs d (m - 1) False st')"
proof -
  let ?n = "image_size st" and ?co = "center_origin st" and ?fs = "ifs_functions st"
  let ?start = "if fc then transpose_flip_top_bottom (image_out st) else image_out st"
  let ?t = "mk_raster (nat ?n) (nat ?n) (\<lambda>x y. (0, 0, 0, 0))"
  from assms(2) have r: "apply_functions rs ?start ?n ?co ?t ?fs = Inr (image_out st')"
    by (auto simp: ifs_step_def Let_def Image_new_Inr split: sum.splits)
  from id_take_nth_drop [OF assms(3)] assms(4)
  have "?fs = take i ?fs @ (s, (tx, ty)) # drop (Suc i) ?fs"
    by simp
  with r have "apply_functions rs ?start ?n ?co ?t
      (take i ?fs @ (s, (tx, ty)) # drop (Suc i) ?fs) = Inr (image_out st')"
    by simp
  then obtain before after where
    b: "apply_functions rs ?start ?n ?co ?t (take i ?fs) = Inr before" and
    c: "apply_contraction rs ?start ?n ?co before (s, (tx, ty)) = Inr after" and
    a: "apply_functions rs ?start ?n ?co after (drop (Suc i) ?fs) = Inr (image_out st')"
    by (auto simp: apply_functions_append split: sum.splits)
  from apply_contraction_Inr [OF c] obtain k dx dy cur layer where
    k: "int_of_product s ?n = Inr k" and dx: "int_of_product tx ?n = Inr dx" and
    dy: "int_of_product ty ?n = Inr dy" and
    cur: "resize rs ?start (k, k) = Inr cur" and
    layer: "paste ?t cur ((if ?co then k else 0) + dx, (if ?co then k else 0) + dy) = Inr layer"
    and m: "paste_mask before layer layer = Inr after"
    by blast
  let ?p = "fl (s * fl (of_int ?n))"
  have k': "py_int ?p = k" and dx': "py_int (fl (tx * fl (of_int ?n))) = dx"
    and dy': "py_int (fl (ty * fl (of_int ?n))) = dy"
    using int_of_product_Inr [OF k] int_of_product_Inr [OF dx] int_of_product_Inr [OF dy]
    by simp_all
  have le: "\<bar>of_int k\<bar> \<le> \<bar>?p\<bar>"
    using abs_py_int_le [of ?p] by (simp only: k')
  have near: "\<bar>?p - of_int k\<bar> < 1"
    using py_int_near [of ?p] by (simp only: k')
  have ex: "\<exists>cur layer before after.
      apply_functions rs ?start ?n ?co ?t (take i ?fs) = Inr before \<and>
      resize rs ?start (k, k) = Inr cur \<and>
      paste ?t cur ((if ?co then k else 0) + dx, (if ?co then k else 0) + dy) = Inr layer \<and>
      paste_mask before layer layer = Inr after \<and>
      apply_functions rs ?start ?n ?co after (drop (Suc i) ?fs) = Inr (image_out st')"
    using b cur layer m a by blast
  have it: "\<forall>d m. 0 < m \<longrightarrow>
      iterate rs (Suc d) m fc st = iterate rs d (m - 1) False st'"
    using assms(2) by (simp add: iterate_pos)
  show ?thesis
    unfolding Let_def k' dx' dy'
    using le near ex it by (intro conjI)
qed

theorem ifs_step_truncates_witness:
  "(0 :: int) < image_size (seven_eighths_renderer white2) \<and>
   ifs_step nearest True (seven_eighths_renderer white2)
     = Inr (seven_eighths_renderer \<lparr>width = 2, height = 2,
              pixels = [[(0, 0, 0, 0), (255, 255, 255, 255)], [(0, 0, 0, 0), (0, 0, 0, 0)]]\<rparr>) \<and>
   (0 :: nat) < length (ifs_functions (seven_eighths_renderer white2)) \<and>
   ifs_functions (seven_eighths_renderer white2) ! 0 = (7 / 8, (7 / 8, 0)) \<and>
   py_int (fl (7 / 8 * fl (of_int 2))) = 1 \<and>
   iterate nearest (Suc 0) 1 True (seven_eighths_renderer white2)
     = iterate nearest 0 0 False
         (seven_eighths_renderer \<lparr>width = 2, height = 2,
            pixels = [[(0, 0, 0, 0), (255, 255, 255, 255)], [(0, 0, 0, 0), (0, 0, 0, 0)]]\<rparr>)"
proof -
  have h1: "0 < image_size (seven_eighths_renderer white2)"
    by (simp add: seven_eighths_renderer_def)
  have h3: "0 < length (ifs_functions (seven_eighths_renderer white2))"
    by (simp add: seven_eighths_renderer_def)
  have h4: "ifs_functions (seven_eighths_renderer white2) ! 0 = (7 / 8, (7 / 8, 0))"
    by (simp add: seven_eighths_renderer_def)
  have p: "py_int (fl (7 / 8 * fl (of_int 2))) = 1"
    by (simp add: py_int_def fl_numeral fl_7_4)
  from ifs_step_truncates [OF h1 seven_eighths_step h3 h4]
  have "iterate nearest (Suc 0) 1 True (seven_eighths_renderer white2)
      = iterate nearest 0 (1 - 1) False
          (seven_eighths_renderer \<lparr>width = 2, height = 2,
             pixels = [[(0, 0, 0, 0), (255, 255, 255, 255)], [(0, 0, 0, 0), (0, 0, 0, 0)]]\<rparr>)"
    by (simp add: Let_def)
  with h1 h3 h4 p seven_eighths_step show ?thesis by simp
qed

section \<open>The contraction lists of the generators\<close>












section \<open>Iterating without contractions\<close>

lemma flip_constant:
  "transpose_flip_top_bottom (mk_raster w h (\<lambda>x y. c)) = mk_raster w h (\<lambda>x y. c)"
  by (simp add: transpose_flip_top_bottom_def mk_raster_def map_replicate_const)

lemma blend_transparent_on_black:
  "blend_pixel (alpha (0, 0, 0, 0)) (0, 0, 0, 255) (0, 0, 0, 0) = (0, 0, 0, 255)"
  by (simp add: blend_pixel_def alpha_def BLEND8_def DIV255_def)

lemma ifs_step_no_functions:
  assumes "ifs_functions st = []" and "0 \<le> image_size st"
  shows "ifs_step rs fc st
    = Inr (st\<lparr>image_out := mk_raster (nat (image_size st)) (nat (image_size st))
                              (\<lambda>x y. (0, 0, 0, 0))\<rparr>)"
  using assms by (simp add: ifs_step_def Image_new_def Let_def)

lemma finalize_transparent:
  assumes "image_out st = mk_raster (nat (image_size st)) (nat (image_size st))
                              (\<lambda>x y. (0, 0, 0, 0))"
    and "0 \<le> image_size st"
  shows "finalize st
    = Inr (st\<lparr>image_out := mk_raster (nat (image_size st)) (nat (image_size st))
                              (\<lambda>x y. (0, 0, 0, 255))\<rparr>)"
proof -
  let ?n = "nat (image_size st)"
  let ?t = "mk_raster ?n ?n (\<lambda>x y. (0, 0, 0, 0))"
  let ?b = "mk_raster ?n ?n (\<lambda>x y. (0, 0, 0, 255))"
  have "paste_mask ?b ?t ?t = Inr ?b"
    unfolding paste_mask_def
    by (auto intro!: mk_raster_cong simp: blend_transparent_on_black)
  with assms show ?thesis
    by (simp add: finalize_def Image_new_def flip_constant)
qed

lemma iterate_no_functions_rec:
  assumes "ifs_functions st = []" and "0 \<le> image_size st"
    and "image_out st = mk_raster (nat (image_size st)) (nat (image_size st))
                              (\<lambda>x y. (0, 0, 0, 0))"
    and "k \<le> d"
  shows "iterate rs d (int k) False st
    = Inr (st\<lparr>image_out := mk_raster (nat (image_size st)) (nat (image_size st))
                              (\<lambda>x y. (0, 0, 0, 255))\<rparr>)"
  using assms
proof (induction k arbitrary: d st)
  case 0
  then show ?case by (simp add: iterate_last finalize_transparent)
next
  case (Suc k)
  let ?t = "mk_raster (nat (image_size st)) (nat (image_size st)) (\<lambda>x y. (0, 0, 0, 0))"
  from Suc.prems have s: "ifs_step rs False st = Inr (st\<lparr>image_out := ?t\<rparr>)"
    by (simp add: ifs_step_no_functions)
  from Suc.prems have "st\<lparr>image_out := ?t\<rparr> = st" by simp
  with s Suc.prems(4)
  have "iterate rs d (int (Suc k)) False st = iterate rs (d - 1) (int k) False st"
    by (simp add: iterate_pos)
  moreover from Suc.prems(4) have "k \<le> d - 1" by simp
  ultimately show ?case using Suc.IH [of st "d - 1"] Suc.prems(1,2,3) by simp
qed

lemma iterate_no_functions_too_deep:
  assumes "ifs_functions st = []" and "0 \<le> image_size st" and "int d < n"
  shows "iterate rs d n fc st
    = Inl (RecursionError (mk_raster (nat (image_size st)) (nat (image_size st))
                              (\<lambda>x y. (0, 0, 0, 0))))"
  using assms
proof (induction d arbitrary: n fc st)
  case 0
  then show ?case by (simp add: iterate_pos ifs_step_no_functions)
next
  case (Suc d)
  let ?t = "mk_raster (nat (image_size st)) (nat (image_size st)) (\<lambda>x y. (0, 0, 0, 0))"
  from Suc.prems have "iterate rs (Suc d) n fc st
      = iterate rs d (n - 1) False (st\<lparr>image_out := ?t\<rparr>)"
    by (simp add: iterate_pos ifs_step_no_functions)
  moreover from Suc.prems have "int d < n - 1" by simp
  ultimately show ?case
    using Suc.IH [of "st\<lparr>image_out := ?t\<rparr>" "n - 1" False] Suc.prems(1,2) by simp
qed

text \<open>
  C9, as stated, fails: the claim is for every \<open>n \<ge> 1\<close>, and the method calls itself
  \<open>n\<close> times. At the default recursion limit of 1000 a top-level call has at most 999
  nested calls left; \<open>iterate 1000\<close> on the constructed renderer of size 1, whose
  contraction list is empty, raises \<^verbatim>\<open>RecursionError\<close> and leaves the transparent canvas.
\<close>

theorem iterate_no_functions_counterexample:
  "init nearest None 1 False = Inr unit_renderer \<and> ifs_functions unit_renderer = [] \<and>
   iterate nearest (recursion_limit - 1) 1000 True unit_renderer
     = Inl (RecursionError \<lparr>width = 1, height = 1, pixels = [[(0, 0, 0, 0)]]\<rparr>)"
proof -
  have "iterate nearest (recursion_limit - 1) 1000 True unit_renderer
      = Inl (RecursionError (mk_raster (nat (image_size unit_renderer))
              (nat (image_size unit_renderer)) (\<lambda>x y. (0, 0, 0, 0))))"
    by (rule iterate_no_functions_too_deep)
       (simp_all add: unit_renderer_def recursion_limit_def)
  then show ?thesis by (simp add: eval_defs)
qed

text \<open>
  C9, amended. On a renderer as the constructor returns it, whose contraction list is
  empty, whatever the seed, a first call \<open>iterate n\<close> with \<open>n \<ge> 1\<close> and \<open>n\<close> no more than
  the number \<open>d\<close> of nested calls the interpreter still allows raises no error and
  leaves a buffer of \<open>image_size\<close> by \<open>image_size\<close> pixels, each of them opaque black
  \<open>(0, 0, 0, 255)\<close>. With \<open>n\<close> above \<open>d\<close> the call raises \<^verbatim>\<open>RecursionError\<close> and leaves the
  transparent canvas.
\<close>

theorem iterate_no_functions_black:
  assumes "init rs seed sz co = Inr st" and "1 \<le> n"
  shows "(n \<le> int d \<longrightarrow>
            (\<exists>im. iterate rs d n True st = Inr (st\<lparr>image_out := im\<rparr>) \<and>
                  square_of (image_size st) im \<and> pixel_set im \<subseteq> {(0, 0, 0, 255)})) \<and>
         (int d < n \<longrightarrow>
            iterate rs d n True st
              = Inl (RecursionError (mk_raster (nat (image_size st)) (nat (image_size st))
                                       (\<lambda>x y. (0, 0, 0, 0)))))"
proof (intro conjI impI)
  let ?t = "mk_raster (nat (image_size st)) (nat (image_size st)) (\<lambda>x y. (0, 0, 0, 0))"
  let ?b = "mk_raster (nat (image_size st)) (nat (image_size st)) (\<lambda>x y. (0, 0, 0, 255))"
  from assms(1) have e: "ifs_functions st = []" by (auto simp: init_Inr)
  from assms(1) have z: "0 \<le> image_size st"
    by (auto simp: init_Inr default_seed_def Image_new_def resize_def c_int_def
             split: option.splits if_splits)
  {
    assume nd: "n \<le> int d"
    from e z have s: "ifs_step rs True st = Inr (st\<lparr>image_out := ?t\<rparr>)"
      by (rule ifs_step_no_functions)
    from assms(2) have n: "n - 1 = int (nat (n - 1))" by simp
    from nd assms(2) have d: "d \<noteq> 0" "nat (n - 1) \<le> d - 1" by auto
    have "iterate rs (d - 1) (int (nat (n - 1))) False (st\<lparr>image_out := ?t\<rparr>)
        = Inr (st\<lparr>image_out := ?t\<rparr>\<lparr>image_out := ?b\<rparr>)"
      using e z d(2)
        iterate_no_functions_rec [of "st\<lparr>image_out := ?t\<rparr>" "nat (n - 1)" "d - 1" rs]
      by simp
    with s n assms(2) d(1) have "iterate rs d n True st = Inr (st\<lparr>image_out := ?b\<rparr>)"
      by (simp add: iterate_pos)
    moreover from z have "square_of (image_size st) ?b" by (simp add: square_of_def)
    moreover have "pixel_set ?b \<subseteq> {(0, 0, 0, 255)}" by (auto simp: pixel_set_mk_raster)
    ultimately show "\<exists>im. iterate rs d n True st = Inr (st\<lparr>image_out := im\<rparr>) \<and>
        square_of (image_size st) im \<and> pixel_set im \<subseteq> {(0, 0, 0, 255)}"
      by blast
  }
  {
    assume "int d < n"
    with e z show "iterate rs d n True st = Inl (RecursionError ?t)"
      by (rule iterate_no_functions_too_deep)
  }
qed

theorem iterate_no_functions_black_witness:
  "init nearest None 1 False = Inr unit_renderer \<and> (1 :: int) \<le> 2 \<and>
   (2 :: int) \<le> int (recursion_limit - 1) \<and>
   (\<exists>im. iterate nearest (recursion_limit - 1) 2 True unit_renderer
            = Inr (unit_renderer\<lparr>image_out := im\<rparr>) \<and>
         square_of (image_size unit_renderer) im \<and> pixel_set im \<subseteq> {(0, 0, 0, 255)})"
proof -
  have i: "init nearest None 1 False = Inr unit_renderer"
    by (simp add: eval_defs)
  have d: "(2 :: int) \<le> int (recursion_limit - 1)"
    by (simp add: recursion_limit_def)
  from iterate_no_functions_black [OF i, of 2 "recursion_limit - 1"] i d
  show ?thesis by simp
qed

section \<open>Opacity after finalization\<close>

text \<open>
  Where every alpha value of the buffer is 0 or 255, a paste with the raster as its own
  mask either keeps or copies a pixel, and the finalization over the opaque background
  leaves alpha 255 everywhere. This holds for every call with \<open>k \<ge> 1\<close> on such a
  buffer, with a resampler that makes no other alpha value.
\<close>

lemma alpha_blend_pixel: "alpha (blend_pixel a out inp) = BLEND8 a (alpha out) (alpha inp)"
  by (cases out; cases inp) (simp add: blend_pixel_def alpha_def)

lemma binary_alpha_mk_raster:
  assumes "\<And>x y. x < w \<Longrightarrow> y < h \<Longrightarrow> alpha (f x y) = 0 \<or> alpha (f x y) = 255"
  shows "binary_alpha (mk_raster w h f)"
proof -
  have "alpha p = 0 \<or> alpha p = 255" if "p \<in> pixel_set (mk_raster w h f)" for p
  proof -
    from that obtain x y where "p = f x y" "x < w" "y < h"
      unfolding pixel_set_mk_raster by blast
    with assms show ?thesis by simp
  qed
  then show ?thesis by (simp add: binary_alpha_def)
qed

lemma binary_alpha_getpixel:
  "binary_alpha im \<Longrightarrow> x < width im \<Longrightarrow> y < height im \<Longrightarrow>
   alpha (getpixel im x y) = 0 \<or> alpha (getpixel im x y) = 255"
  using getpixel_in_pixel_set [of im x y] by (auto simp: binary_alpha_def)

lemma binary_alpha_flip [simp]: "binary_alpha (transpose_flip_top_bottom im) = binary_alpha im"
  by (simp add: binary_alpha_def)

lemma binary_alpha_paste:
  assumes "binary_alpha dst" and "binary_alpha src" and "paste dst src box = Inr r"
  shows "binary_alpha r"
proof (cases box)
  case (Pair ox oy)
  let ?f = "\<lambda>x y. if 0 \<le> int x - ox \<and> int x - ox < int (width src) \<and>
                         0 \<le> int y - oy \<and> int y - oy < int (height src)
                      then getpixel src (nat (int x - ox)) (nat (int y - oy))
                      else getpixel dst x y"
  from assms(3) have "r = mk_raster (width dst) (height dst) ?f"
    by (simp add: Pair paste_def Let_def split: if_splits)
  moreover have "binary_alpha (mk_raster (width dst) (height dst) ?f)"
  proof (rule binary_alpha_mk_raster)
    fix x y assume xy: "x < width dst" "y < height dst"
    show "alpha (?f x y) = 0 \<or> alpha (?f x y) = 255"
    proof (cases "0 \<le> int x - ox \<and> int x - ox < int (width src) \<and>
                  0 \<le> int y - oy \<and> int y - oy < int (height src)")
      case True
      then have "nat (int x - ox) < width src" "nat (int y - oy) < height src" by linarith+
      from binary_alpha_getpixel [OF assms(2) this] True show ?thesis by simp
    next
      case False
      with binary_alpha_getpixel [OF assms(1) xy] show ?thesis by auto
    qed
  qed
  ultimately show ?thesis by simp
qed

lemma binary_alpha_paste_mask:
  assumes "binary_alpha dst" and "binary_alpha src" and "paste_mask dst src src = Inr r"
  shows "binary_alpha r"
proof -
  let ?f = "\<lambda>x y. if x < width src \<and> y < height src
     then blend_pixel (alpha (getpixel src x y)) (getpixel dst x y) (getpixel src x y)
     else getpixel dst x y"
  from assms(3) have r: "r = mk_raster (width dst) (height dst) ?f"
    by (simp add: paste_mask_def)
  show ?thesis
    unfolding r
  proof (rule binary_alpha_mk_raster)
    fix x y assume xy: "x < width dst" "y < height dst"
    note d = binary_alpha_getpixel [OF assms(1) xy]
    show "alpha (?f x y) = 0 \<or> alpha (?f x y) = 255"
    proof (cases "x < width src \<and> y < height src")
      case True
      with binary_alpha_getpixel [OF assms(2), of x y] d show ?thesis
        by (auto simp: alpha_blend_pixel BLEND8_keep BLEND8_copy)
    next
      case False
      with d show ?thesis by auto
    qed
  qed
qed

lemma opaque_paste_mask:
  assumes op: "\<And>x y. x < width dst \<Longrightarrow> y < height dst \<Longrightarrow> alpha (getpixel dst x y) = 255"
    and "binary_alpha src" and "paste_mask dst src src = Inr r"
  shows "\<forall>p \<in> pixel_set r. alpha p = 255"
proof -
  let ?f = "\<lambda>x y. if x < width src \<and> y < height src
     then blend_pixel (alpha (getpixel src x y)) (getpixel dst x y) (getpixel src x y)
     else getpixel dst x y"
  from assms(3) have r: "r = mk_raster (width dst) (height dst) ?f"
    by (simp add: paste_mask_def)
  have "alpha (?f x y) = 255" if xy: "x < width dst" "y < height dst" for x y
  proof (cases "x < width src \<and> y < height src")
    case True
    with binary_alpha_getpixel [OF assms(2), of x y] op [OF xy] show ?thesis
      by (auto simp: alpha_blend_pixel BLEND8_keep BLEND8_copy)
  next
    case False
    with op [OF xy] show ?thesis by auto
  qed
  then show ?thesis
    unfolding r pixel_set_mk_raster by blast
qed

lemma binary_alpha_resize:
  "keeps_binary_alpha rs \<Longrightarrow> binary_alpha im \<Longrightarrow> resize rs im sz = Inr im' \<Longrightarrow>
   binary_alpha im'"
  by (cases sz) (auto simp: resize_def keeps_binary_alpha_def split: if_splits)

lemma binary_alpha_Image_new:
  "Image_new sz c = Inr im \<Longrightarrow> alpha c = 0 \<or> alpha c = 255 \<Longrightarrow> binary_alpha im"
  by (cases sz) (auto simp: Image_new_Inr intro: binary_alpha_mk_raster)

lemma binary_alpha_apply_contraction:
  assumes "keeps_binary_alpha rs" and "binary_alpha start" and "binary_alpha canvas"
    and "apply_contraction rs start n co canvas c = Inr r"
  shows "binary_alpha r"
proof -
  obtain s tx ty where c: "c = (s, (tx, ty))" by (cases c) auto
  let ?t = "mk_raster (nat n) (nat n) (\<lambda>x y. (0, 0, 0, 0))"
  from apply_contraction_Inr [OF assms(4) [unfolded c]] obtain k ox oy cur layer where
    cur: "resize rs start (k, k) = Inr cur" and
    layer: "paste ?t cur (ox, oy) = Inr layer" and
    r: "paste_mask canvas layer layer = Inr r"
    by blast
  from cur assms(1,2) have "binary_alpha cur" by (blast intro: binary_alpha_resize)
  moreover have "binary_alpha ?t"
    by (rule binary_alpha_mk_raster) (simp add: alpha_def)
  ultimately have "binary_alpha layer" using layer by (blast intro: binary_alpha_paste)
  with assms(3) r show ?thesis by (blast intro: binary_alpha_paste_mask)
qed

lemma binary_alpha_apply_functions:
  "keeps_binary_alpha rs \<Longrightarrow> binary_alpha start \<Longrightarrow> binary_alpha canvas \<Longrightarrow>
   apply_functions rs start n co canvas cs = Inr r \<Longrightarrow> binary_alpha r"
proof (induction cs arbitrary: canvas)
  case Nil
  then show ?case by simp
next
  case (Cons c cs)
  from Cons.prems(4) obtain mid where
    m: "apply_contraction rs start n co canvas c = Inr mid" and
    r: "apply_functions rs start n co mid cs = Inr r"
    by (auto split: sum.splits)
  from binary_alpha_apply_contraction [OF Cons.prems(1,2,3) m]
  have "binary_alpha mid" .
  from Cons.IH [OF Cons.prems(1,2) this r] show ?case .
qed

lemma binary_alpha_ifs_step:
  assumes "keeps_binary_alpha rs" and "binary_alpha (image_out st)"
    and "ifs_step rs fc st = Inr st'"
  shows "binary_alpha (image_out st')"
proof -
  let ?start = "if fc then transpose_flip_top_bottom (image_out st) else image_out st"
  from assms(3) obtain t r where
    t: "Image_new (image_size st, image_size st) (0, 0, 0, 0) = Inr t" and
    r: "apply_functions rs ?start (image_size st) (center_origin st) t (ifs_functions st) = Inr r"
    and st': "st' = st\<lparr>image_out := r\<rparr>"
    by (auto simp: ifs_step_def Let_def split: sum.splits)
  from t have "binary_alpha t"
    by (rule binary_alpha_Image_new) (simp add: alpha_def)
  moreover from assms(2) have "binary_alpha ?start" by simp
  ultimately have "binary_alpha r"
    using assms(1) r by (blast intro: binary_alpha_apply_functions)
  with st' show ?thesis by simp
qed

lemma opaque_finalize:
  assumes "binary_alpha (image_out st)" and "finalize st = Inr st'"
  shows "\<forall>p \<in> pixel_set (image_out st'). alpha p = 255"
proof -
  from assms(2) obtain b r where
    b: "Image_new (image_size st, image_size st) (0, 0, 0, 255) = Inr b" and
    r: "paste_mask b (image_out st) (image_out st) = Inr r" and
    st': "st' = st\<lparr>image_out := transpose_flip_top_bottom r\<rparr>"
    by (auto simp: finalize_def split: sum.splits)
  from b have "alpha (getpixel b x y) = 255" if "x < width b" "y < height b" for x y
    using that by (auto simp: Image_new_Inr alpha_def)
  from opaque_paste_mask [OF this assms(1) r] st' show ?thesis by simp
qed

lemma opaque_iterate_rec:
  "keeps_binary_alpha rs \<Longrightarrow> binary_alpha (image_out st) \<Longrightarrow> 0 \<le> n \<Longrightarrow> n = 0 \<longrightarrow> \<not> fc \<Longrightarrow>
   iterate rs d n fc st = Inr st' \<Longrightarrow> \<forall>p \<in> pixel_set (image_out st'). alpha p = 255"
proof (induction rs d n fc st rule: iterate.induct)
  case (1 rs d n fc st)
  show ?case
  proof (cases "n > 0")
    case True
    with "1.prems" obtain st1 where s1: "ifs_step rs fc st = Inr st1"
      and d: "d \<noteq> 0" and it: "iterate rs (d - 1) (n - 1) False st1 = Inr st'"
      by (auto simp: iterate_pos split: sum.splits if_splits)
    from binary_alpha_ifs_step [OF "1.prems"(1,2) s1] have "binary_alpha (image_out st1)" .
    from "1.IH" [OF True s1 d "1.prems"(1) this _ _ it] True show ?thesis by simp
  next
    case False
    with "1.prems" have "finalize st = Inr st'" by (simp add: iterate_last)
    with "1.prems"(2) show ?thesis by (rule opaque_finalize)
  qed
qed

lemma iterate_opaque_binary_alpha:
  assumes "keeps_binary_alpha rs" and "binary_alpha (image_out st)" and "1 \<le> k"
    and "iterate rs d k True st = Inr st'"
  shows "\<forall>p \<in> pixel_set (image_out st'). alpha p = 255"
  using assms by (intro opaque_iterate_rec [of rs st k True d st']) auto

lemma nearest_index: "x < w \<Longrightarrow> 0 < m \<Longrightarrow> (2 * x + 1) * m div (2 * w) < (m :: nat)"
proof -
  assume "x < w" "0 < m"
  then have "(2 * x + 1) * m < (2 * w) * m" by (intro mult_less_mono1) auto
  then show ?thesis by (simp add: less_mult_imp_div_less mult.commute)
qed

lemma keeps_binary_alpha_nearest: "keeps_binary_alpha nearest"
proof -
  have "binary_alpha im'" if b: "binary_alpha im" and n: "nearest im w h = Inr im'" for im w h im'
  proof -
    from n have pos: "0 < width im" "0 < height im" and
      im': "im' = mk_raster w h (\<lambda>x y.
             getpixel im ((2 * x + 1) * width im div (2 * w))
                         ((2 * y + 1) * height im div (2 * h)))"
      by (auto simp: nearest_def split: if_splits)
    show ?thesis
      unfolding im'
    proof (rule binary_alpha_mk_raster)
      fix x y assume "x < w" "y < h"
      with pos have "(2 * x + 1) * width im div (2 * w) < width im"
        "(2 * y + 1) * height im div (2 * h) < height im"
        by (blast intro: nearest_index)+
      then show "alpha (getpixel im ((2 * x + 1) * width im div (2 * w))
                                   ((2 * y + 1) * height im div (2 * h))) = 0 \<or>
                 alpha (getpixel im ((2 * x + 1) * width im div (2 * w))
                                   ((2 * y + 1) * height im div (2 * h))) = 255"
        by (rule binary_alpha_getpixel [OF b])
    qed
  qed
  then show ?thesis unfolding keeps_binary_alpha_def by blast
qed

section \<open>Top-level calls\<close>

lemma mk_raster_4:
  "mk_raster 4 4 f = \<lparr>width = 4, height = 4, pixels =
     [[f 0 0, f 1 0, f 2 0, f 3 0], [f 0 1, f 1 1, f 2 1, f 3 1],
      [f 0 2, f 1 2, f 2 2, f 3 2], [f 0 3, f 1 3, f 2 3, f 3 3]]\<rparr>"
proof -
  have "[0..<4] = [0, 1, 2, 3]" by (simp add: upt_rec)
  then show ?thesis by (simp add: mk_raster_def)
qed

lemmas eval4 =
  ifs_step_def finalize_def Image_new_def apply_contraction_def int_of_product_def
  float_times_int_def py_int_def fl_numeral c_int_def
  resize_def paste_def paste_mask_def getpixel_def blend_pixel_def alpha_def
  transpose_flip_top_bottom_def iterate_pos iterate_last Let_def mk_raster_4
  shift_functions_def shift_renderer_def columns4_def BLEND8_keep BLEND8_copy

lemma shift_init:
  "(case init rs None 4 False of Inl e \<Rightarrow> Inl e | Inr st0 \<Rightarrow> add_functions st0 shift_functions)
     = Inr (shift_renderer (columns4 (255, 255, 255, 255) (255, 255, 255, 255)
                                     (255, 255, 255, 255) (255, 255, 255, 255)))"
  by (simp add: init_def default_seed_def Image_new_def add_function_def mk_raster_4
                shift_functions_def shift_renderer_def columns4_def)

lemma shift_once:
  "iterate rs (Suc d) 1 True (shift_renderer (columns4 (255, 255, 255, 255) (255, 255, 255, 255)
                                               (255, 255, 255, 255) (255, 255, 255, 255)))
     = Inr (shift_renderer (columns4 (0, 0, 0, 255) (255, 255, 255, 255)
                                     (255, 255, 255, 255) (255, 255, 255, 255)))"
  by (simp add: eval4)

lemma shift_once_more:
  "iterate rs (Suc d) 1 True (shift_renderer (columns4 (0, 0, 0, 255) (255, 255, 255, 255)
                                               (255, 255, 255, 255) (255, 255, 255, 255)))
     = Inr (shift_renderer (columns4 (0, 0, 0, 255) (0, 0, 0, 255)
                                     (0, 0, 0, 255) (255, 255, 255, 255)))"
  by (simp add: eval4)

lemma shift_twice:
  "iterate rs (Suc (Suc d)) 2 True (shift_renderer (columns4 (255, 255, 255, 255) (255, 255, 255, 255)
                                               (255, 255, 255, 255) (255, 255, 255, 255)))
     = Inr (shift_renderer (columns4 (0, 0, 0, 255) (0, 0, 0, 255)
                                     (255, 255, 255, 255) (255, 255, 255, 255)))"
  by (simp add: eval4)

text \<open>
  C7. There are a seed, a size, contractions and counts \<open>a, b \<ge> 1\<close> for which
  \<open>iterate a\<close> followed by \<open>iterate b\<close> leaves another buffer than \<open>iterate (a + b)\<close> on
  the same renderer: with the default seed of size 4 and the two shifts, \<open>a = b = 1\<close>,
  the first call's finalization paints the uncovered first column black, and the second
  call copies that black over a pixel that stays white in the single call. This is so
  for every resampler and wherever the interpreter allows the two nested calls that
  \<open>iterate 2\<close> makes.
\<close>

theorem iterate_not_additive:
  "\<exists>seed sz co cs a b st s1 s2 s12.
     1 \<le> a \<and> 1 \<le> b \<and>
     (case init rs seed sz co of Inl e \<Rightarrow> Inl e | Inr st0 \<Rightarrow> add_functions st0 cs) = Inr st \<and>
     iterate rs (Suc (Suc d)) a True st = Inr s1 \<and>
     iterate rs (Suc (Suc d)) b True s1 = Inr s2 \<and>
     iterate rs (Suc (Suc d)) (a + b) True st = Inr s12 \<and>
     image_out s2 \<noteq> image_out s12"
proof -
  let ?w = "(255, 255, 255, 255) :: pixel" and ?b = "(0, 0, 0, 255) :: pixel"
  let ?st = "shift_renderer (columns4 ?w ?w ?w ?w)"
  let ?s1 = "shift_renderer (columns4 ?b ?w ?w ?w)"
  let ?s2 = "shift_renderer (columns4 ?b ?b ?b ?w)"
  let ?s12 = "shift_renderer (columns4 ?b ?b ?w ?w)"
  have "image_out ?s2 \<noteq> image_out ?s12"
    by (simp add: shift_renderer_def columns4_def)
  with shift_init [of rs] shift_once [of rs "Suc d"] shift_once_more [of rs "Suc d"]
    shift_twice [of rs d]
  have "(1 :: int) \<le> 1 \<and> (1 :: int) \<le> 1 \<and>
     (case init rs None 4 False of Inl e \<Rightarrow> Inl e
      | Inr st0 \<Rightarrow> add_functions st0 shift_functions) = Inr ?st \<and>
     iterate rs (Suc (Suc d)) 1 True ?st = Inr ?s1 \<and>
     iterate rs (Suc (Suc d)) 1 True ?s1 = Inr ?s2 \<and>
     iterate rs (Suc (Suc d)) (1 + 1) True ?st = Inr ?s12 \<and>
     image_out ?s2 \<noteq> image_out ?s12"
    by simp
  then show ?thesis by blast
qed

text \<open>
  C2 (every pixel has alpha 255 after \<open>iterate k\<close>, \<open>k \<ge> 1\<close>), evaluated on a seed of
  one white pixel of alpha 128, size 1 and the contraction \<open>(1, (0, 0))\<close>: a paste with a
  mask blends the alpha channel too, so the step leaves alpha 64 and the finalization,
  over the opaque black background, alpha 207.
\<close>

theorem iterate_leaves_transparency:
  "init nearest (Some half_white1) 1 False = Inr ((half_renderer half_white1)\<lparr>ifs_functions := []\<rparr>) \<and>
   add_function ((half_renderer half_white1)\<lparr>ifs_functions := []\<rparr>) 1 (0, 0)
     = Inr (half_renderer half_white1) \<and>
   iterate nearest (recursion_limit - 1) 1 True (half_renderer half_white1)
     = Inr (half_renderer \<lparr>width = 1, height = 1, pixels = [[(32, 32, 32, 207)]]\<rparr>)"
  by (simp add: eval_defs half_renderer_def half_white1_def)

end
